theory Spec2Isabelle
  imports Main
begin

section \<open>Data model of the menu bar (package menubar)\<close>

text \<open>
  A \<open>tea.Msg\<close> produced by an action is an opaque token for the menu bar; a
  \<open>tea.Cmd\<close> is either \<open>nil\<close> or a thunk that yields such a message.
  \<open>MenuItem.Action\<close> is a nullable \<open>func() tea.Msg\<close>.
\<close>

type_synonym Msg = string
type_synonym Cmd = "Msg option"

datatype MenuItem = MenuItem
  (Label: string) (Hotkey: string) (Shortcut: string) (Action: "Msg option")
  (SubMenu: "MenuItem list") (IsSeparator: bool) (Disabled: bool)

definition Separator :: MenuItem where
  "Separator = MenuItem [] [] [] None [] True False"

text \<open>
  The eleven \<open>lipgloss.Style\<close> fields of \<open>Styles\<close>. The style type itself belongs
  to the lipgloss library and stays a type parameter. The fields carry the suffix
  \<open>Style\<close> because several of them share their name with a field of \<open>MenuItem\<close>.
\<close>

record 'st Styles =
  BarStyle :: 'st
  ItemStyle :: 'st
  SelectedItemStyle :: 'st
  ShortcutStyle :: 'st
  DropdownStyle :: 'st
  DropdownItemStyle :: 'st
  DropdownSelectedStyle :: 'st
  ShortcutSelectedStyle :: 'st
  HotkeyStyle :: 'st
  SeparatorStyle :: 'st
  DisabledStyle :: 'st

text \<open>
  \<open>Model\<close>: \<open>OpenSubMenu\<close> is \<open>-1\<close> when no submenu is open, \<open>SubMenuState\<close> is the
  nullable pointer to the model of the open submenu.
\<close>

datatype 'st Model = Model
  (Items: "MenuItem list") (Active: bool) (Selection: int) (OpenSubMenu: int)
  (SubMenuState: "'st Model option") (Styles: "'st Styles") (isDropdown: bool)

text \<open>Assignments to single fields of a \<open>Model\<close> value.\<close>

primrec set_Active :: "bool \<Rightarrow> 'st Model \<Rightarrow> 'st Model" where
  "set_Active v (Model items active sel opn sub st dd) = Model items v sel opn sub st dd"

primrec set_Selection :: "int \<Rightarrow> 'st Model \<Rightarrow> 'st Model" where
  "set_Selection v (Model items active sel opn sub st dd) = Model items active v opn sub st dd"

primrec set_OpenSubMenu :: "int \<Rightarrow> 'st Model \<Rightarrow> 'st Model" where
  "set_OpenSubMenu v (Model items active sel opn sub st dd) = Model items active sel v sub st dd"

primrec set_SubMenuState :: "'st Model option \<Rightarrow> 'st Model \<Rightarrow> 'st Model" where
  "set_SubMenuState v (Model items active sel opn sub st dd) = Model items active sel opn v st dd"

primrec set_Styles :: "'st Styles \<Rightarrow> 'st Model \<Rightarrow> 'st Model" where
  "set_Styles v (Model items active sel opn sub st dd) = Model items active sel opn sub v dd"

primrec set_isDropdown :: "bool \<Rightarrow> 'st Model \<Rightarrow> 'st Model" where
  "set_isDropdown v (Model items active sel opn sub st dd) = Model items active sel opn sub st v"

text \<open>
  Input events. The code distinguishes \<open>tea.MouseMsg\<close>, \<open>tea.KeyMsg\<close> (through
  \<open>msg.String()\<close>) and everything else; of the mouse event types only
  \<open>tea.MouseRelease\<close> and \<open>tea.MouseMotion\<close> are tested for.
\<close>

datatype MouseEventType = MouseRelease | MouseMotion | MouseOther

datatype MouseMsg = MouseMsg (MouseX: int) (MouseY: int) (MouseType: MouseEventType)

datatype TeaMsg = KeyMsg string | Mouse MouseMsg | OtherMsg

text \<open>
  Run-time failures of the Go code: an index out of range, slice bounds out of range,
  a negative \<open>strings.Repeat\<close> count, and a loop that does not return.
\<close>

datatype panic = IndexOutOfRange | SliceOutOfRange | NegativeRepeat | NeverReturns

section \<open>External capabilities\<close>

text \<open>
  The lipgloss style engine and the two case-folding functions of Go's \<open>strings\<close>
  package are not part of the repository; they are parameters of the model.
  \<open>BorderTop s\<close> stands for \<open>s.GetBorderStyle().Top\<close>, \<open>InlineTrue s\<close> for
  \<open>s.Inline(true)\<close>, \<open>Inherit s t\<close> for \<open>s.Inherit(t)\<close>; \<open>Copy\<close> is the identity on
  values. \<open>DefaultStyles\<close> is built from lipgloss constructors only.
\<close>

record 'st Env =
  Width :: "string \<Rightarrow> int"
  Height :: "string \<Rightarrow> int"
  Render :: "'st \<Rightarrow> string \<Rightarrow> string"
  UnsetPadding :: "'st \<Rightarrow> 'st"
  Inherit :: "'st \<Rightarrow> 'st \<Rightarrow> 'st"
  InlineTrue :: "'st \<Rightarrow> 'st"
  GetFrameSize :: "'st \<Rightarrow> int \<times> int"
  BorderTop :: "'st \<Rightarrow> string"
  ToLower :: "string \<Rightarrow> string"
  EqualFold :: "string \<Rightarrow> string \<Rightarrow> bool"
  DefaultStyles :: "'st Styles"

section \<open>Construction and opening a submenu\<close>

definition New :: "'st Env \<Rightarrow> MenuItem list \<Rightarrow> 'st Model" where
  "New env items = Model items True 0 (-1) None (DefaultStyles env) False"

definition openCurrentSelection :: "'st Env \<Rightarrow> 'st Model \<Rightarrow> panic + 'st Model" where
  "openCurrentSelection env m =
     (if Selection m < 0 \<or> int (length (Items m)) \<le> Selection m then Inl IndexOutOfRange
      else
        let item = Items m ! nat (Selection m) in
        if length (SubMenu item) > 0 then
          let m1 = set_OpenSubMenu (Selection m) m;
              sub = New env (SubMenu item);
              sub1 = set_isDropdown True sub;
              sub2 = set_Styles (Styles m1) sub1
          in Inr (set_SubMenuState (Some sub2) m1)
        else Inr m)"

definition hasOpenSubmenu :: "'st Model \<Rightarrow> bool" where
  "hasOpenSubmenu m = (OpenSubMenu m \<noteq> -1 \<and> SubMenuState m \<noteq> None)"

lemma size_child: "SubMenuState m = Some c \<Longrightarrow> size c < size m"
  by (cases m) simp

function wantsToHandleRight :: "'st Model \<Rightarrow> panic + bool" where
  "wantsToHandleRight m =
     (case (if OpenSubMenu m \<noteq> -1 then SubMenuState m else None) of
        Some c \<Rightarrow> wantsToHandleRight c
      | None \<Rightarrow>
          if length (Items m) > 0 then
            (if Selection m < 0 \<or> int (length (Items m)) \<le> Selection m
             then Inl IndexOutOfRange
             else Inr (length (SubMenu (Items m ! nat (Selection m))) > 0))
          else Inr False)"
  by pat_completeness auto
termination
  by (relation "measure size") (auto simp: size_child split: if_splits)

section \<open>Skipping separators and disabled items\<close>

text \<open>
  The loop
  \<^verbatim>\<open>
  start := m.Selection
  for m.Items[m.Selection].IsSeparator || m.Items[m.Selection].Disabled {
      m.Selection++
      if m.Selection >= len(m.Items) { m.Selection = 0 }
      if m.Selection == start { break }
  }
  \<close>
  occurs three times in \<open>Update\<close> (bar "right" with and without an open submenu,
  dropdown "down"), and three times mirrored with \<open>m.Selection--\<close>. The loop is a
  partial function: \<open>None\<close> is the loop that never returns.
\<close>

partial_function (option) skipForwardLoop ::
  "MenuItem list \<Rightarrow> int \<Rightarrow> int \<Rightarrow> (panic + int) option" where
  "skipForwardLoop items start sel =
     (if sel < 0 \<or> int (length items) \<le> sel then Some (Inl IndexOutOfRange)
      else if IsSeparator (items ! nat sel) \<or> Disabled (items ! nat sel) then
        (let sel1 = sel + 1;
             sel2 = (if sel1 \<ge> int (length items) then 0 else sel1)
         in if sel2 = start then Some (Inr sel2) else skipForwardLoop items start sel2)
      else Some (Inr sel))"

partial_function (option) skipBackwardLoop ::
  "MenuItem list \<Rightarrow> int \<Rightarrow> int \<Rightarrow> (panic + int) option" where
  "skipBackwardLoop items start sel =
     (if sel < 0 \<or> int (length items) \<le> sel then Some (Inl IndexOutOfRange)
      else if IsSeparator (items ! nat sel) \<or> Disabled (items ! nat sel) then
        (let sel1 = sel - 1;
             sel2 = (if sel1 < 0 then int (length items) - 1 else sel1)
         in if sel2 = start then Some (Inr sel2) else skipBackwardLoop items start sel2)
      else Some (Inr sel))"

declare skipForwardLoop.simps [code]
declare skipBackwardLoop.simps [code]

text \<open>Increment with wrap-around, \<open>start := m.Selection\<close>, then the loop.\<close>

definition selectNext :: "'st Model \<Rightarrow> panic + 'st Model" where
  "selectNext m =
     (let s1 = Selection m + 1;
          s2 = (if s1 \<ge> int (length (Items m)) then 0 else s1)
      in case skipForwardLoop (Items m) s2 s2 of
           None \<Rightarrow> Inl NeverReturns
         | Some (Inl e) \<Rightarrow> Inl e
         | Some (Inr s) \<Rightarrow> Inr (set_Selection s m))"

definition selectPrev :: "'st Model \<Rightarrow> panic + 'st Model" where
  "selectPrev m =
     (let s1 = Selection m - 1;
          s2 = (if s1 < 0 then int (length (Items m)) - 1 else s1)
      in case skipBackwardLoop (Items m) s2 s2 of
           None \<Rightarrow> Inl NeverReturns
         | Some (Inl e) \<Rightarrow> Inl e
         | Some (Inr s) \<Rightarrow> Inr (set_Selection s m))"

section \<open>Geometry\<close>

text \<open>\<open>strings.HasPrefix\<close> and \<open>strings.Index\<close> on byte strings.\<close>

fun hasPrefix :: "string \<Rightarrow> string \<Rightarrow> bool" where
  "hasPrefix s [] = True"
| "hasPrefix [] (p # ps) = False"
| "hasPrefix (c # cs) (p # ps) = (c = p \<and> hasPrefix cs ps)"

fun indexFrom :: "string \<Rightarrow> string \<Rightarrow> int \<Rightarrow> int" where
  "indexFrom [] sub i = (if sub = [] then i else -1)"
| "indexFrom (c # cs) sub i = (if hasPrefix (c # cs) sub then i else indexFrom cs sub (i + 1))"

definition stringsIndex :: "string \<Rightarrow> string \<Rightarrow> int" where
  "stringsIndex s sub = indexFrom s sub 0"

text \<open>
  \<open>renderLabel\<close>: the label is cut around the hotkey at byte offsets; the offset of the
  case-insensitive fallback is computed on the lower-cased strings but applied to the
  label itself, so the slice expressions can fail.
\<close>

definition renderLabel ::
  "'st Env \<Rightarrow> 'st Styles \<Rightarrow> MenuItem \<Rightarrow> 'st \<Rightarrow> panic + string" where
  "renderLabel env st item baseStyle =
     (if Hotkey item = [] \<or> Disabled item then Inr (Render env baseStyle (Label item))
      else
        let idx0 = stringsIndex (Label item) (Hotkey item);
            idx = (if idx0 = -1
                   then stringsIndex (ToLower env (Label item)) (ToLower env (Hotkey item))
                   else idx0)
        in if idx = -1 then Inr (Render env baseStyle (Label item))
           else if idx + int (length (Hotkey item)) > int (length (Label item))
           then Inl SliceOutOfRange
           else
             let pre = take (nat idx) (Label item);
                 hot = take (length (Hotkey item)) (drop (nat idx) (Label item));
                 post = drop (nat idx + length (Hotkey item)) (Label item);
                 hotStyle = Inherit env (HotkeyStyle st) baseStyle;
                 postRendered = (if post \<noteq> [] then Render env (InlineTrue env baseStyle) post
                                 else [])
             in Inr (Render env baseStyle pre @ Render env hotStyle hot @ postRendered))"

definition measureItem :: "'st Env \<Rightarrow> 'st Model \<Rightarrow> int \<Rightarrow> panic + int" where
  "measureItem env m i =
     (if i < 0 \<or> int (length (Items m)) \<le> i then Inl IndexOutOfRange
      else if IsSeparator (Items m ! nat i)
      then Inr (Width env (Render env (ItemStyle (Styles m)) ''|''))
      else
        let style = (if Active m \<and> i = Selection m then SelectedItemStyle (Styles m)
                     else ItemStyle (Styles m));
            baseStyle = UnsetPadding env style
        in case renderLabel env (Styles m) (Items m ! nat i) baseStyle of
             Inl e \<Rightarrow> Inl e
           | Inr lbl \<Rightarrow> Inr (Width env (Render env style lbl)))"

text \<open>
  The first loop of \<open>getDropdownDimensions\<close>: the running maxima of the label and
  shortcut widths (both start at 0) and the flag \<open>hasSubmenu\<close>.
\<close>

fun scanWidths :: "'st Env \<Rightarrow> MenuItem list \<Rightarrow> int \<times> int \<times> bool \<Rightarrow> int \<times> int \<times> bool" where
  "scanWidths env [] acc = acc"
| "scanWidths env (item # rest) (maxLabelWidth, maxShortcutWidth, hasSubmenu) =
     (let w = Width env (Label item);
          sw = Width env (Shortcut item)
      in scanWidths env rest
           (if w > maxLabelWidth then w else maxLabelWidth,
            if sw > maxShortcutWidth then sw else maxShortcutWidth,
            if length (SubMenu item) > 0 then True else hasSubmenu))"

definition getDropdownDimensions :: "'st Env \<Rightarrow> 'st Model \<Rightarrow> panic + int \<times> int" where
  "getDropdownDimensions env m =
     (case scanWidths env (Items m) (0, 0, False) of
        (maxLabelWidth, maxShortcutWidth, hasSubmenu) \<Rightarrow>
          let maxRightWidth = (if hasSubmenu \<and> maxShortcutWidth < 2 then 2 else maxShortcutWidth);
              dummyStyle = DropdownItemStyle (Styles m);
              innerContentWidth = maxLabelWidth + 2 + maxRightWidth
          in if innerContentWidth < 0 then Inl NegativeRepeat
             else
               let itemWidth =
                     Width env (Render env dummyStyle (replicate (nat innerContentWidth) CHR '' ''));
                   height = int (length (Items m))
               in case GetFrameSize env (DropdownStyle (Styles m)) of
                    (w, h) \<Rightarrow> Inr (itemWidth + w, height + h))"

section \<open>Pointer events\<close>

text \<open>Row height of entry \<open>i\<close> of a dropdown, as both loops of \<open>checkMouse\<close> compute it.\<close>

definition rowHeight :: "'st Env \<Rightarrow> 'st Styles \<Rightarrow> MenuItem \<Rightarrow> int" where
  "rowHeight env st item =
     (if IsSeparator item then Height env (Render env (SeparatorStyle st) ''-'')
      else Height env (Render env (DropdownItemStyle st) ''A''))"

text \<open>\<open>for i := 0; i < m.OpenSubMenu; i++ { ...; yOffset += h }\<close>, \<open>n\<close> iterations left.\<close>

fun sumRows :: "'st Env \<Rightarrow> 'st Model \<Rightarrow> int \<Rightarrow> nat \<Rightarrow> int \<Rightarrow> panic + int" where
  "sumRows env m i 0 yOffset = Inr yOffset"
| "sumRows env m i (Suc n) yOffset =
     (if i < 0 \<or> int (length (Items m)) \<le> i then Inl IndexOutOfRange
      else sumRows env m (i + 1) n (yOffset + rowHeight env (Styles m) (Items m ! nat i)))"

text \<open>\<open>for i := 0; i < m.OpenSubMenu; i++ { subX += m.measureItem(i) }\<close>.\<close>

fun sumItems :: "'st Env \<Rightarrow> 'st Model \<Rightarrow> int \<Rightarrow> nat \<Rightarrow> int \<Rightarrow> panic + int" where
  "sumItems env m i 0 subX = Inr subX"
| "sumItems env m i (Suc n) subX =
     (case measureItem env m i of
        Inl e \<Rightarrow> Inl e
      | Inr w \<Rightarrow> sumItems env m (i + 1) n (subX + w))"

text \<open>Position of the open submenu (step 1 of \<open>checkMouse\<close>).\<close>

definition subPosition :: "'st Env \<Rightarrow> 'st Model \<Rightarrow> int \<Rightarrow> int \<Rightarrow> panic + int \<times> int" where
  "subPosition env m baseX baseY =
     (if isDropdown m then
        (case getDropdownDimensions env m of
           Inl e \<Rightarrow> Inl e
         | Inr (width, height) \<Rightarrow>
             let subX = baseX + width;
                 topBorder = Height env (BorderTop env (DropdownStyle (Styles m)))
             in case sumRows env m 0 (nat (OpenSubMenu m)) topBorder of
                  Inl e \<Rightarrow> Inl e
                | Inr yOffset \<Rightarrow> Inr (subX, baseY + yOffset))
      else
        (case sumItems env m 0 (nat (OpenSubMenu m)) baseX of
           Inl e \<Rightarrow> Inl e
         | Inr subX \<Rightarrow> Inr (subX, baseY + Height env (Render env (BarStyle (Styles m)) ''A''))))"

text \<open>
  The item loop of the dropdown hit test; \<open>rest\<close> are the entries from index \<open>i\<close> on.
  The result is the updated model, the flag \<open>handled\<close> and the command.
\<close>

fun dropdownRows ::
  "'st Env \<Rightarrow> 'st Model \<Rightarrow> MouseMsg \<Rightarrow> int \<Rightarrow> MenuItem list \<Rightarrow> int \<Rightarrow> int
     \<Rightarrow> panic + 'st Model \<times> bool \<times> Cmd" where
  "dropdownRows env m msg localY [] i currentY = Inr (m, True, None)"
| "dropdownRows env m msg localY (item # rest) i currentY =
     (let itemH = rowHeight env (Styles m) item in
      if localY \<ge> currentY \<and> localY < currentY + itemH then
        (if IsSeparator item \<or> Disabled item then Inr (m, True, None)
         else
           let m1 = set_Selection i m in
           if MouseType msg = MouseRelease then
             (if length (SubMenu item) > 0 then
                (case openCurrentSelection env m1 of
                   Inl e \<Rightarrow> Inl e
                 | Inr m2 \<Rightarrow> Inr (m2, True, None))
              else if Action item \<noteq> None then Inr (m1, True, Action item)
              else Inr (m1, True, None))
           else if MouseType msg = MouseMotion then
             (if OpenSubMenu m1 \<noteq> -1 \<and> OpenSubMenu m1 \<noteq> i
              then Inr (set_SubMenuState None (set_OpenSubMenu (-1) m1), True, None)
              else Inr (m1, True, None))
           else Inr (m1, True, None))
      else dropdownRows env m msg localY rest (i + 1) (currentY + itemH))"

text \<open>The item loop of the bar hit test.\<close>

fun barItems ::
  "'st Env \<Rightarrow> 'st Model \<Rightarrow> MouseMsg \<Rightarrow> MenuItem list \<Rightarrow> int \<Rightarrow> int
     \<Rightarrow> panic + 'st Model \<times> bool \<times> Cmd" where
  "barItems env m msg [] i currentX = Inr (m, True, None)"
| "barItems env m msg (item # rest) i currentX =
     (case measureItem env m i of
        Inl e \<Rightarrow> Inl e
      | Inr w \<Rightarrow>
          if MouseX msg \<ge> currentX \<and> MouseX msg < currentX + w then
            (let m1 = set_Selection i m in
             if MouseType msg = MouseRelease then
               (let m2 = (if \<not> Active m1 then set_Active True m1 else m1) in
                if length (SubMenu item) > 0 then
                  (if OpenSubMenu m2 = i
                   then Inr (set_SubMenuState None (set_OpenSubMenu (-1) m2), True, None)
                   else (case openCurrentSelection env m2 of
                           Inl e \<Rightarrow> Inl e
                         | Inr m3 \<Rightarrow> Inr (m3, True, None)))
                else if Action item \<noteq> None then Inr (m2, True, Action item)
                else Inr (m2, True, None))
             else if MouseType msg = MouseMotion then
               (if Active m1 \<and> OpenSubMenu m1 \<noteq> -1 \<and> OpenSubMenu m1 \<noteq> i then
                  (case openCurrentSelection env m1 of
                     Inl e \<Rightarrow> Inl e
                   | Inr m2 \<Rightarrow> Inr (m2, True, None))
                else Inr (m1, True, None))
             else Inr (m1, True, None))
          else barItems env m msg rest (i + 1) (currentX + w))"

text \<open>Step 2 of \<open>checkMouse\<close>: the hit test of the node itself.\<close>

definition checkSelf ::
  "'st Env \<Rightarrow> 'st Model \<Rightarrow> MouseMsg \<Rightarrow> int \<Rightarrow> int \<Rightarrow> panic + 'st Model \<times> bool \<times> Cmd" where
  "checkSelf env m msg baseX baseY =
     (if isDropdown m then
        (case getDropdownDimensions env m of
           Inl e \<Rightarrow> Inl e
         | Inr (width, height) \<Rightarrow>
             if MouseX msg \<ge> baseX \<and> MouseX msg < baseX + width
                \<and> MouseY msg \<ge> baseY \<and> MouseY msg < baseY + height
             then
               let topBorder = Height env (BorderTop env (DropdownStyle (Styles m)));
                   localY = MouseY msg - baseY - topBorder
               in dropdownRows env m msg localY (Items m) 0 0
             else Inr (m, False, None))
      else
        let barHeight = Height env (Render env (BarStyle (Styles m)) ''A'') in
        if MouseY msg \<ge> baseY \<and> MouseY msg < baseY + barHeight
        then barItems env m msg (Items m) 0 baseX
        else Inr (m, False, None))"

text \<open>
  \<open>checkMouse\<close> has a pointer receiver and changes the node and, through
  \<open>m.SubMenuState\<close>, the nodes below it in place; the model returns the changed chain.
\<close>

function checkMouse ::
  "'st Env \<Rightarrow> 'st Model \<Rightarrow> MouseMsg \<Rightarrow> int \<Rightarrow> int \<Rightarrow> panic + 'st Model \<times> bool \<times> Cmd" where
  "checkMouse env m msg baseX baseY =
     (case (if OpenSubMenu m \<noteq> -1 then SubMenuState m else None) of
        Some c \<Rightarrow>
          (case subPosition env m baseX baseY of
             Inl e \<Rightarrow> Inl e
           | Inr (subX, subY) \<Rightarrow>
               (case checkMouse env c msg subX subY of
                  Inl e \<Rightarrow> Inl e
                | Inr (c', handled, cmd) \<Rightarrow>
                    let m1 = set_SubMenuState (Some c') m in
                    if handled then Inr (m1, True, cmd)
                    else checkSelf env m1 msg baseX baseY))
      | None \<Rightarrow> checkSelf env m msg baseX baseY)"
  by pat_completeness auto
termination
  by (relation "measure (\<lambda>(env, m, msg, baseX, baseY). size m)")
     (auto simp: size_child split: if_splits)

definition handleMouse :: "'st Env \<Rightarrow> 'st Model \<Rightarrow> MouseMsg \<Rightarrow> panic + 'st Model \<times> Cmd" where
  "handleMouse env m msg =
     (case checkMouse env m msg 0 0 of
        Inl e \<Rightarrow> Inl e
      | Inr (m1, handled, cmd) \<Rightarrow>
          if \<not> handled \<and> MouseType msg = MouseRelease
          then Inr (set_SubMenuState None (set_OpenSubMenu (-1) (set_Active False m1)), cmd)
          else Inr (m1, cmd))"

section \<open>Key events\<close>

text \<open>
  The two hotkey loops of \<open>Update\<close> differ only in the comparison (\<open>key == item.Hotkey\<close>,
  then \<open>strings.EqualFold(key, item.Hotkey)\<close>); \<open>hotkeyScan\<close> returns the first entry,
  with its index, at which the loop body reaches \<open>m.Selection = i\<close>.
\<close>

fun hotkeyScan ::
  "(string \<Rightarrow> string \<Rightarrow> bool) \<Rightarrow> string \<Rightarrow> MenuItem list \<Rightarrow> int \<Rightarrow> (int \<times> MenuItem) option" where
  "hotkeyScan eq key [] i = None"
| "hotkeyScan eq key (item # rest) i =
     (if IsSeparator item \<or> Disabled item then hotkeyScan eq key rest (i + 1)
      else if Hotkey item \<noteq> [] \<and> eq key (Hotkey item) then Some (i, item)
      else hotkeyScan eq key rest (i + 1))"

text \<open>The body of both loops after a match.\<close>

definition hotkeyHit ::
  "'st Env \<Rightarrow> 'st Model \<Rightarrow> int \<Rightarrow> MenuItem \<Rightarrow> panic + 'st Model \<times> Cmd" where
  "hotkeyHit env m i item =
     (let m1 = set_Selection i m in
      if length (SubMenu item) > 0 then
        (case openCurrentSelection env m1 of
           Inl e \<Rightarrow> Inl e
         | Inr m2 \<Rightarrow> Inr (m2, None))
      else if Action item \<noteq> None then Inr (m1, Action item)
      else Inr (m1, None))"

text \<open>\<open>switch key { ... }\<close> of a node without an open submenu.\<close>

definition keySwitch :: "'st Env \<Rightarrow> 'st Model \<Rightarrow> string \<Rightarrow> panic + 'st Model \<times> Cmd" where
  "keySwitch env m key =
     (if key = ''left'' then
        (if isDropdown m then Inr (set_Active False m, None)
         else (case selectPrev m of Inl e \<Rightarrow> Inl e | Inr m1 \<Rightarrow> Inr (m1, None)))
      else if key = ''right'' then
        (if isDropdown m then
           (if Selection m < 0 \<or> int (length (Items m)) \<le> Selection m then Inl IndexOutOfRange
            else if length (SubMenu (Items m ! nat (Selection m))) > 0 then
              (case openCurrentSelection env m of Inl e \<Rightarrow> Inl e | Inr m1 \<Rightarrow> Inr (m1, None))
            else Inr (m, None))
         else (case selectNext m of Inl e \<Rightarrow> Inl e | Inr m1 \<Rightarrow> Inr (m1, None)))
      else if key = ''up'' then
        (if isDropdown m then
           (case selectPrev m of Inl e \<Rightarrow> Inl e | Inr m1 \<Rightarrow> Inr (m1, None))
         else Inr (m, None))
      else if key = ''down'' then
        (if isDropdown m then
           (case selectNext m of Inl e \<Rightarrow> Inl e | Inr m1 \<Rightarrow> Inr (m1, None))
         else if length (Items m) > 0 then
           (case openCurrentSelection env m of Inl e \<Rightarrow> Inl e | Inr m1 \<Rightarrow> Inr (m1, None))
         else Inr (m, None))
      else if key = ''enter'' then
        (if length (Items m) > 0 then
           (if Selection m < 0 \<or> int (length (Items m)) \<le> Selection m then Inl IndexOutOfRange
            else
              let item = Items m ! nat (Selection m) in
              if Disabled item then Inr (m, None)
              else if length (SubMenu item) > 0 then
                (case openCurrentSelection env m of Inl e \<Rightarrow> Inl e | Inr m1 \<Rightarrow> Inr (m1, None))
              else if Action item \<noteq> None then Inr (m, Action item)
              else Inr (m, None))
         else Inr (m, None))
      else if key = ''esc'' then
        (if isDropdown m then Inr (set_Active False m, None)
         else Inr (set_SubMenuState None (set_OpenSubMenu (-1) m), None))
      else Inr (m, None))"

text \<open>A key press on an active node without an open submenu: hotkeys, then the switch.\<close>

definition keyNoSubmenu :: "'st Env \<Rightarrow> 'st Model \<Rightarrow> string \<Rightarrow> panic + 'st Model \<times> Cmd" where
  "keyNoSubmenu env m key =
     (case hotkeyScan (=) key (Items m) 0 of
        Some (i, item) \<Rightarrow> hotkeyHit env m i item
      | None \<Rightarrow>
          (case hotkeyScan (EqualFold env) key (Items m) 0 of
             Some (i, item) \<Rightarrow> hotkeyHit env m i item
           | None \<Rightarrow> keySwitch env m key))"

text \<open>
  With a submenu open, the bar takes "left" and "right" for itself when the submenu
  \<open>c\<close> does not use them. \<open>None\<close>: the key is not intercepted and goes to the submenu.
\<close>

definition intercept ::
  "'st Env \<Rightarrow> 'st Model \<Rightarrow> 'st Model \<Rightarrow> TeaMsg \<Rightarrow> (panic + 'st Model \<times> Cmd) option" where
  "intercept env m c msg =
     (if \<not> isDropdown m \<and> msg = KeyMsg ''left'' then
        (if \<not> hasOpenSubmenu c then
           Some (case selectPrev m of
                   Inl e \<Rightarrow> Inl e
                 | Inr m1 \<Rightarrow>
                     (case openCurrentSelection env m1 of
                        Inl e \<Rightarrow> Inl e
                      | Inr m2 \<Rightarrow> Inr (m2, None)))
         else None)
      else if \<not> isDropdown m \<and> msg = KeyMsg ''right'' then
        (case wantsToHandleRight c of
           Inl e \<Rightarrow> Some (Inl e)
         | Inr wants \<Rightarrow>
             if \<not> wants then
               Some (case selectNext m of
                       Inl e \<Rightarrow> Inl e
                     | Inr m1 \<Rightarrow>
                         (case openCurrentSelection env m1 of
                            Inl e \<Rightarrow> Inl e
                          | Inr m2 \<Rightarrow> Inr (m2, None)))
             else None)
      else None)"

text \<open>What \<open>Update\<close> does with the result of the submenu's \<open>Update\<close>.\<close>

definition afterDelegate ::
  "'st Model \<Rightarrow> panic + 'st Model \<times> Cmd \<Rightarrow> panic + 'st Model \<times> Cmd" where
  "afterDelegate m r =
     (case r of
        Inl e \<Rightarrow> Inl e
      | Inr (newSubModel, cmd) \<Rightarrow>
          let m1 = set_SubMenuState (Some newSubModel) m in
          if \<not> Active newSubModel
          then Inr (set_SubMenuState None (set_OpenSubMenu (-1) m1), cmd)
          else Inr (m1, cmd))"

function Update :: "'st Env \<Rightarrow> 'st Model \<Rightarrow> TeaMsg \<Rightarrow> panic + 'st Model \<times> Cmd" where
  "Update env m msg =
     (case msg of
        Mouse mouseMsg \<Rightarrow> handleMouse env m mouseMsg
      | _ \<Rightarrow>
          if \<not> Active m then Inr (m, None)
          else
            (case (if OpenSubMenu m \<noteq> -1 then SubMenuState m else None) of
               Some c \<Rightarrow>
                 (case intercept env m c msg of
                    Some r \<Rightarrow> r
                  | None \<Rightarrow> afterDelegate m (Update env c msg))
             | None \<Rightarrow>
                 (case msg of
                    KeyMsg key \<Rightarrow> keyNoSubmenu env m key
                  | _ \<Rightarrow> Inr (m, None))))"
  by pat_completeness auto
termination
  by (relation "measure (\<lambda>(env, m, msg). size m)") (auto simp: size_child split: if_splits)

section \<open>Strings as Go reads them\<close>

text \<open>
  A Go string is a byte sequence; \<open>for i := range s\<close> visits the byte offsets at which
  a UTF-8 encoded code point starts, and advances by one byte over a byte that starts no
  valid encoding. \<open>runeLen\<close> is the number of bytes the first step takes.
\<close>

definition inRange :: "nat \<Rightarrow> nat \<Rightarrow> char \<Rightarrow> bool" where
  "inRange lo hi c = (lo \<le> of_char c \<and> (of_char c :: nat) \<le> hi)"

fun runeLen :: "string \<Rightarrow> nat" where
  "runeLen [] = 0"
| "runeLen [c0] = 1"
| "runeLen [c0, c1] = (if inRange 0xC2 0xDF c0 \<and> inRange 0x80 0xBF c1 then 2 else 1)"
| "runeLen [c0, c1, c2] =
     (if inRange 0xC2 0xDF c0 \<and> inRange 0x80 0xBF c1 then 2
      else if inRange 0x80 0xBF c2 \<and>
             (inRange 0xE0 0xE0 c0 \<and> inRange 0xA0 0xBF c1
              \<or> inRange 0xE1 0xEC c0 \<and> inRange 0x80 0xBF c1
              \<or> inRange 0xED 0xED c0 \<and> inRange 0x80 0x9F c1
              \<or> inRange 0xEE 0xEF c0 \<and> inRange 0x80 0xBF c1) then 3
      else 1)"
| "runeLen (c0 # c1 # c2 # c3 # cs) =
     (if of_char c0 < (0x80 :: nat) then 1
      else if inRange 0xC2 0xDF c0 \<and> inRange 0x80 0xBF c1 then 2
      else if inRange 0x80 0xBF c2 \<and>
             (inRange 0xE0 0xE0 c0 \<and> inRange 0xA0 0xBF c1
              \<or> inRange 0xE1 0xEC c0 \<and> inRange 0x80 0xBF c1
              \<or> inRange 0xED 0xED c0 \<and> inRange 0x80 0x9F c1
              \<or> inRange 0xEE 0xEF c0 \<and> inRange 0x80 0xBF c1) then 3
      else if inRange 0x80 0xBF c2 \<and> inRange 0x80 0xBF c3 \<and>
             (inRange 0xF0 0xF0 c0 \<and> inRange 0x90 0xBF c1
              \<or> inRange 0xF1 0xF3 c0 \<and> inRange 0x80 0xBF c1
              \<or> inRange 0xF4 0xF4 c0 \<and> inRange 0x80 0x8F c1) then 4
      else 1)"

lemma runeLen_pos: "s \<noteq> [] \<Longrightarrow> 0 < runeLen s"
  by (induction s rule: runeLen.induct) auto

text \<open>\<open>strings.Split(s, "\n")\<close>: always at least one line.\<close>

fun splitLines :: "string \<Rightarrow> string list" where
  "splitLines [] = [[]]"
| "splitLines (c # cs) =
     (if c = CHR 0x0A then [] # splitLines cs
      else (case splitLines cs of
              l # ls \<Rightarrow> (c # l) # ls
            | [] \<Rightarrow> [[c]]))"

text \<open>\<open>strings.Join(lines, "\n")\<close>.\<close>

fun joinLines :: "string list \<Rightarrow> string" where
  "joinLines [] = []"
| "joinLines [l] = l"
| "joinLines (l # ls) = l @ CHR 0x0A # joinLines ls"

section \<open>A concrete style engine for closed examples\<close>

text \<open>
  Closed examples need values for the external capabilities. The sample engine measures
  the way lipgloss does on the inputs used below: the width of a block is the largest
  width of its lines; a line counts no cell from ESC up to and including the next letter,
  two cells for a three-byte code point with lead byte \<open>0xE3\<close> to \<open>0xE9\<close> (the CJK
  range), none for a continuation byte or a control character, and one for every other
  byte; the height is the number of lines. A sample style is a horizontal padding and a
  border flag; rendering pads on both sides.
\<close>

definition isTerminator :: "char \<Rightarrow> bool" where
  "isTerminator c = (inRange 0x40 0x5A c \<or> inRange 0x61 0x7A c)"

fun lineWidth :: "bool \<Rightarrow> string \<Rightarrow> int" where
  "lineWidth ansi [] = 0"
| "lineWidth True (c # cs) = (if isTerminator c then lineWidth False cs else lineWidth True cs)"
| "lineWidth False (c # cs) =
     (if c = CHR 0x1B then lineWidth True cs
      else if inRange 0x80 0xBF c \<or> of_char c < (0x20 :: nat) then lineWidth False cs
      else if inRange 0xE3 0xE9 c then 2 + lineWidth False cs
      else 1 + lineWidth False cs)"

definition demoWidth :: "string \<Rightarrow> int" where
  "demoWidth s = fold (\<lambda>l w. max w (lineWidth False l)) (splitLines s) 0"

definition demoHeight :: "string \<Rightarrow> int" where
  "demoHeight s = int (length (splitLines s))"

record DemoStyle =
  padding :: nat
  border :: bool

definition asciiLower :: "char \<Rightarrow> char" where
  "asciiLower c = (if inRange 0x41 0x5A c then char_of (of_char c + (32 :: nat)) else c)"

definition demoStyles :: "DemoStyle Styles" where
  "demoStyles =
     \<lparr> BarStyle = \<lparr>padding = 0, border = False\<rparr>,
       ItemStyle = \<lparr>padding = 1, border = False\<rparr>,
       SelectedItemStyle = \<lparr>padding = 1, border = False\<rparr>,
       ShortcutStyle = \<lparr>padding = 0, border = False\<rparr>,
       DropdownStyle = \<lparr>padding = 0, border = True\<rparr>,
       DropdownItemStyle = \<lparr>padding = 1, border = False\<rparr>,
       DropdownSelectedStyle = \<lparr>padding = 1, border = False\<rparr>,
       ShortcutSelectedStyle = \<lparr>padding = 0, border = False\<rparr>,
       HotkeyStyle = \<lparr>padding = 0, border = False\<rparr>,
       SeparatorStyle = \<lparr>padding = 0, border = False\<rparr>,
       DisabledStyle = \<lparr>padding = 1, border = False\<rparr> \<rparr>"

definition demoEnv :: "DemoStyle Env" where
  "demoEnv =
     \<lparr> Width = demoWidth,
       Height = demoHeight,
       Render = (\<lambda>st s. replicate (padding st) CHR '' '' @ s @ replicate (padding st) CHR '' ''),
       UnsetPadding = (\<lambda>st. st\<lparr>padding := 0\<rparr>),
       Inherit = (\<lambda>st base. st),
       InlineTrue = (\<lambda>st. st\<lparr>padding := 0\<rparr>),
       GetFrameSize = (\<lambda>st. (2 * int (padding st) + (if border st then 2 else 0),
                              if border st then 2 else 0)),
       BorderTop = (\<lambda>st. if border st then ''-'' else []),
       ToLower = map asciiLower,
       EqualFold = (\<lambda>s t. map asciiLower s = map asciiLower t),
       DefaultStyles = demoStyles \<rparr>"

section \<open>Notions used to state the properties\<close>

definition selectable :: "MenuItem \<Rightarrow> bool" where
  "selectable item = (\<not> IsSeparator item \<and> \<not> Disabled item)"

text \<open>
  The index "0 adjusted to the first non-separator, non-disabled entry": the first
  selectable index, and 0 when there is none.
\<close>

fun firstSelectableFrom :: "MenuItem list \<Rightarrow> int \<Rightarrow> int option" where
  "firstSelectableFrom [] i = None"
| "firstSelectableFrom (item # rest) i =
     (if selectable item then Some i else firstSelectableFrom rest (i + 1))"

definition firstSelectable :: "MenuItem list \<Rightarrow> int" where
  "firstSelectable items = (case firstSelectableFrom items 0 of Some i \<Rightarrow> i | None \<Rightarrow> 0)"

text \<open>
  The node \<open>m\<close> with the submenu of its selected entry open: a new child over the
  entry's submenu, marked as a dropdown, active, with the parent's styles, selection 0
  and nothing open; the parent records its selection as the open index.
\<close>

definition submenuOpened :: "'st Model \<Rightarrow> 'st Model" where
  "submenuOpened m =
     set_SubMenuState
       (Some (Model (SubMenu (Items m ! nat (Selection m))) True 0 (-1) None (Styles m) True))
       (set_OpenSubMenu (Selection m) m)"

section \<open>Overlay\<close>

text \<open>
  \<open>splitWithANSI\<close>: \<open>i\<close> runs over the offsets \<open>for i := range s\<close> visits, \<open>prevI\<close> is
  the offset of the previous iteration. Past the loop both branches return \<open>(s, "")\<close>.
  \<open>lipgloss.Width\<close> is the parameter \<open>W\<close>.
\<close>

function splitLoop :: "(string \<Rightarrow> int) \<Rightarrow> string \<Rightarrow> int \<Rightarrow> nat \<Rightarrow> nat \<Rightarrow> string \<times> string" where
  "splitLoop W s width i prevI =
     (if i \<ge> length s then (if W s \<le> width then (s, []) else (s, []))
      else
        let w = W (take i s) in
        if w = width then (take i s, drop i s)
        else if w > width then (take prevI s, drop prevI s)
        else splitLoop W s width (i + runeLen (drop i s)) i)"
  by pat_completeness auto
termination
proof (relation "measure (\<lambda>(W, s, width, i, prevI). length s - i)")
  show "wf (measure (\<lambda>(W, s, width, i, prevI). length s - i))" by simp
next
  fix W :: "string \<Rightarrow> int" and s :: string and width :: int and i prevI :: nat and x :: int
  assume "\<not> length s \<le> i"
  then have "drop i s \<noteq> []" by simp
  then have "0 < runeLen (drop i s)" by (rule runeLen_pos)
  with \<open>\<not> length s \<le> i\<close>
  show "((W, s, width, i + runeLen (drop i s), i), (W, s, width, i, prevI))
      \<in> measure (\<lambda>(W, s, width, i, prevI). length s - i)"
    by simp
qed

definition splitWithANSI :: "(string \<Rightarrow> int) \<Rightarrow> string \<Rightarrow> int \<Rightarrow> string \<times> string" where
  "splitWithANSI W s width = splitLoop W s width 0 0"

text \<open>
  The dimensions of a dropdown in the words of the specification: the largest label
  width and the largest shortcut width over the entries (0 without entries), and whether
  some entry has a submenu.
\<close>

definition maxLabelWidth :: "'st Env \<Rightarrow> MenuItem list \<Rightarrow> int" where
  "maxLabelWidth env items = Max (insert 0 ((\<lambda>item. Width env (Label item)) ` set items))"

definition maxShortcutWidth :: "'st Env \<Rightarrow> MenuItem list \<Rightarrow> int" where
  "maxShortcutWidth env items = Max (insert 0 ((\<lambda>item. Width env (Shortcut item)) ` set items))"

definition anySubmenu :: "MenuItem list \<Rightarrow> bool" where
  "anySubmenu items = list_ex (\<lambda>item. SubMenu item \<noteq> []) items"

text \<open>The right column as the code computes it: at least 2 as soon as a submenu exists.\<close>

definition rightColumnWidth :: "'st Env \<Rightarrow> MenuItem list \<Rightarrow> int" where
  "rightColumnWidth env items =
     (if anySubmenu items then max 2 (maxShortcutWidth env items) else maxShortcutWidth env items)"

text \<open>
  The right column as the claim words it: the largest shortcut width, except that it is
  2 when no entry has a shortcut and some entry has a submenu; and the claimed width.
\<close>

definition claimedRightColumnWidth :: "'st Env \<Rightarrow> MenuItem list \<Rightarrow> int" where
  "claimedRightColumnWidth env items =
     (if list_all (\<lambda>item. Shortcut item = []) items \<and> anySubmenu items then 2
      else maxShortcutWidth env items)"

definition claimedDropdownWidth :: "'st Env \<Rightarrow> 'st Model \<Rightarrow> int" where
  "claimedDropdownWidth env m =
     maxLabelWidth env (Items m) + 2 + claimedRightColumnWidth env (Items m)
       + fst (GetFrameSize env (DropdownItemStyle (Styles m)))
       + fst (GetFrameSize env (DropdownStyle (Styles m)))"

definition shortcutDropdown :: "DemoStyle Model" where
  "shortcutDropdown =
     set_isDropdown True (New demoEnv
       [MenuItem ''A'' [] ''X'' None [] False False,
        MenuItem ''B'' [] [] None [MenuItem ''C'' [] [] None [] False False] False False])"

text \<open>
  The invariant of the open chain: at every node, the open index is set exactly when
  the child is present.
\<close>

fun chainInv :: "'st Model \<Rightarrow> bool" where
  "chainInv (Model items active sel opn sub st dd) =
     (((opn \<noteq> -1) = (sub \<noteq> None)) \<and> (case sub of None \<Rightarrow> True | Some c \<Rightarrow> chainInv c))"

text \<open>
  The states a host can reach: it constructs the bar with \<open>New\<close>, may assign the exported
  fields \<open>Active\<close> and \<open>Styles\<close> (as the README and the example do), and passes messages
  to \<open>Update\<close>.
\<close>

inductive reachable :: "'st Env \<Rightarrow> 'st Model \<Rightarrow> bool" for env :: "'st Env" where
  init: "reachable env (New env items)"
| host_active: "reachable env m \<Longrightarrow> reachable env (set_Active a m)"
| host_styles: "reachable env m \<Longrightarrow> reachable env (set_Styles st m)"
| step: "reachable env m \<Longrightarrow> Update env m msg = Inr (m', cmd) \<Longrightarrow> reachable env m'"

text \<open>A bar with a two-level chain open: Edit, and in it Find.\<close>

definition nestedBar :: "DemoStyle Model" where
  "nestedBar =
     Model
       [MenuItem ''Edit'' ''E'' [] None
          [MenuItem ''Copy'' ''C'' ''^C'' (Some ''copy'') [] False False,
           MenuItem ''Find'' ''F'' [] None
             [MenuItem ''Regex'' [] [] (Some ''regex'') [] False False] False False]
          False False,
        MenuItem ''Help'' ''H'' [] None
          [MenuItem ''About'' ''A'' [] (Some ''about'') [] False False] False False]
       True 0 0
       (Some (Model
          [MenuItem ''Copy'' ''C'' ''^C'' (Some ''copy'') [] False False,
           MenuItem ''Find'' ''F'' [] None
             [MenuItem ''Regex'' [] [] (Some ''regex'') [] False False] False False]
          True 1 1
          (Some (Model [MenuItem ''Regex'' [] [] (Some ''regex'') [] False False]
             True 0 (-1) None demoStyles True))
          demoStyles True))
       demoStyles False"

text \<open>
  The invariant on the selection of a node: whenever some entry is selectable, the
  selection is a valid index of a selectable entry.
\<close>

definition selInv :: "'st Model \<Rightarrow> bool" where
  "selInv m =
     ((\<exists>item \<in> set (Items m). selectable item) \<longrightarrow>
        0 \<le> Selection m \<and> Selection m < int (length (Items m))
        \<and> selectable (Items m ! nat (Selection m)))"

text \<open>
  Hotkey matching in the words of the specification: the first entry in order, separators
  and disabled entries left out, whose hotkey equals the key exactly; when there is none,
  the first one whose hotkey equals it up to case.
\<close>

definition firstHotkey ::
  "(string \<Rightarrow> string \<Rightarrow> bool) \<Rightarrow> string \<Rightarrow> MenuItem list \<Rightarrow> (int \<times> MenuItem) option" where
  "firstHotkey eq key items =
     find (\<lambda>(i, item). \<not> IsSeparator item \<and> \<not> Disabled item
                          \<and> Hotkey item \<noteq> [] \<and> eq key (Hotkey item))
       (zip (map int [0..<length items]) items)"

definition hotkeyMatch :: "'st Env \<Rightarrow> string \<Rightarrow> MenuItem list \<Rightarrow> (int \<times> MenuItem) option" where
  "hotkeyMatch env key items =
     (case firstHotkey (=) key items of
        Some r \<Rightarrow> Some r
      | None \<Rightarrow> firstHotkey (EqualFold env) key items)"

text \<open>The key names the switch of \<open>Update\<close> reacts to.\<close>

definition navigationKeys :: "string list" where
  "navigationKeys = [''left'', ''right'', ''up'', ''down'', ''enter'', ''esc'']"

text \<open>Sample menus: a bar with a separator, and dropdowns with a disabled entry.\<close>

definition sepBar :: "DemoStyle Model" where
  "sepBar = New demoEnv
     [MenuItem ''File'' ''F'' [] (Some ''file'') [] False False,
      Separator,
      MenuItem ''Help'' ''H'' [] (Some ''help'') [] False False]"

definition saveMenu :: "DemoStyle Model" where
  "saveMenu = set_isDropdown True (New demoEnv
     [MenuItem ''Open'' ''O'' [] (Some ''open'') [] False False,
      MenuItem ''Save'' ''S'' [] (Some ''save'') [] False True,
      Separator,
      MenuItem ''Exit'' ''x'' [] (Some ''quit'') [] False False])"

definition searchMenu :: "DemoStyle Model" where
  "searchMenu = set_isDropdown True (New demoEnv
     [MenuItem ''Open'' ''o'' [] (Some ''open'') [] False False,
      MenuItem ''Save'' ''s'' [] (Some ''save'') [] False True,
      MenuItem ''Search'' ''s'' [] (Some ''search'') [] False False])"

section \<open>Properties\<close>

declare Update.simps [simp del]
declare checkMouse.simps [simp del]
declare wantsToHandleRight.simps [simp del]

lemma model_fields_after_set [simp]:
  "Items (set_Active a m) = Items m" "Active (set_Active a m) = a"
  "Selection (set_Active a m) = Selection m" "OpenSubMenu (set_Active a m) = OpenSubMenu m"
  "SubMenuState (set_Active a m) = SubMenuState m" "Styles (set_Active a m) = Styles m"
  "isDropdown (set_Active a m) = isDropdown m"
  "Items (set_Selection i m) = Items m" "Active (set_Selection i m) = Active m"
  "Selection (set_Selection i m) = i" "OpenSubMenu (set_Selection i m) = OpenSubMenu m"
  "SubMenuState (set_Selection i m) = SubMenuState m" "Styles (set_Selection i m) = Styles m"
  "isDropdown (set_Selection i m) = isDropdown m"
  "Items (set_OpenSubMenu i m) = Items m" "Active (set_OpenSubMenu i m) = Active m"
  "Selection (set_OpenSubMenu i m) = Selection m" "OpenSubMenu (set_OpenSubMenu i m) = i"
  "SubMenuState (set_OpenSubMenu i m) = SubMenuState m" "Styles (set_OpenSubMenu i m) = Styles m"
  "isDropdown (set_OpenSubMenu i m) = isDropdown m"
  "Items (set_SubMenuState c m) = Items m" "Active (set_SubMenuState c m) = Active m"
  "Selection (set_SubMenuState c m) = Selection m"
  "OpenSubMenu (set_SubMenuState c m) = OpenSubMenu m"
  "SubMenuState (set_SubMenuState c m) = c" "Styles (set_SubMenuState c m) = Styles m"
  "isDropdown (set_SubMenuState c m) = isDropdown m"
  "Items (set_Styles st m) = Items m" "Active (set_Styles st m) = Active m"
  "Selection (set_Styles st m) = Selection m" "OpenSubMenu (set_Styles st m) = OpenSubMenu m"
  "SubMenuState (set_Styles st m) = SubMenuState m" "Styles (set_Styles st m) = st"
  "isDropdown (set_Styles st m) = isDropdown m"
  "Items (set_isDropdown d m) = Items m" "Active (set_isDropdown d m) = Active m"
  "Selection (set_isDropdown d m) = Selection m"
  "OpenSubMenu (set_isDropdown d m) = OpenSubMenu m"
  "SubMenuState (set_isDropdown d m) = SubMenuState m" "Styles (set_isDropdown d m) = Styles m"
  "isDropdown (set_isDropdown d m) = d"
  by (cases m; simp)+

subsection \<open>Directional keys on an empty bar\<close>

text \<open>
  C1. On an active bar without entries and without an open submenu, "up" and "down"
  return the state unchanged (lemma \<open>empty_bar_up_down\<close>), but "left" and "right" move
  the selection and then read \<open>m.Items[m.Selection]\<close> of the empty slice: the update
  ends in an index-out-of-range panic, whatever the selection and the styles are.
\<close>

lemma empty_bar_up_down:
  "Update env (Model [] True sel (-1) None st False) (KeyMsg ''up'')
     = Inr (Model [] True sel (-1) None st False, None)
   \<and> Update env (Model [] True sel (-1) None st False) (KeyMsg ''down'')
     = Inr (Model [] True sel (-1) None st False, None)"
  by (simp add: Update.simps keyNoSubmenu_def keySwitch_def)

theorem empty_bar_left_right_panic:
  "Update env (Model [] True sel (-1) None st False) (KeyMsg ''left'') = Inl IndexOutOfRange
   \<and> Update env (Model [] True sel (-1) None st False) (KeyMsg ''right'') = Inl IndexOutOfRange"
  by (simp add: Update.simps keyNoSubmenu_def keySwitch_def selectPrev_def selectNext_def
      skipBackwardLoop.simps skipForwardLoop.simps Let_def)

subsection \<open>Opening a submenu\<close>

lemma New_fields [simp]:
  "Items (New env items) = items" "Active (New env items) = True"
  "Selection (New env items) = 0" "OpenSubMenu (New env items) = -1"
  "SubMenuState (New env items) = None" "Styles (New env items) = DefaultStyles env"
  "isDropdown (New env items) = False"
  by (simp_all add: New_def)

lemma openCurrentSelection_opened:
  assumes "0 \<le> Selection m" and "Selection m < int (length (Items m))"
    and "SubMenu (Items m ! nat (Selection m)) \<noteq> []"
  shows "openCurrentSelection env m = Inr (submenuOpened m)"
  using assms by (cases m) (simp add: openCurrentSelection_def submenuOpened_def New_def Let_def)

text \<open>
  C2 (as amended). When the selected entry has a non-empty submenu,
  \<open>openCurrentSelection\<close> returns the node with exactly that submenu open: the child is
  built from the entry's submenu, is a dropdown, is active, carries the parent's styles,
  has nothing open and has selection 0 (not adjusted); the parent's open index is its
  selection and nothing else of the parent changes. "enter" (on an entry that is not
  disabled), "right" in a dropdown, "down" on the bar and a hotkey match on the entry
  all end in this state and emit no command.
\<close>

theorem open_submenu_creates_child:
  assumes "0 \<le> i" and "i < int (length (Items m))" and "SubMenu (Items m ! nat i) \<noteq> []"
  shows "openCurrentSelection env (set_Selection i m) = Inr (submenuOpened (set_Selection i m))
    \<and> hotkeyHit env m i (Items m ! nat i) = Inr (submenuOpened (set_Selection i m), None)
    \<and> (\<not> Disabled (Items m ! nat i) \<longrightarrow>
         keySwitch env (set_Selection i m) ''enter'' = Inr (submenuOpened (set_Selection i m), None))
    \<and> (isDropdown m \<longrightarrow>
         keySwitch env (set_Selection i m) ''right'' = Inr (submenuOpened (set_Selection i m), None))
    \<and> (\<not> isDropdown m \<longrightarrow>
         keySwitch env (set_Selection i m) ''down'' = Inr (submenuOpened (set_Selection i m), None))
    \<and> SubMenuState (submenuOpened (set_Selection i m))
         = Some (Model (SubMenu (Items m ! nat i)) True 0 (-1) None (Styles m) True)
    \<and> OpenSubMenu (submenuOpened (set_Selection i m)) = i"
proof -
  let ?ms = "set_Selection i m"
  have opened: "openCurrentSelection env ?ms = Inr (submenuOpened ?ms)"
    using assms by (intro openCurrentSelection_opened) simp_all
  have len: "Items m \<noteq> []"
    using assms by auto
  have hit: "hotkeyHit env m i (Items m ! nat i) = Inr (submenuOpened ?ms, None)"
    using assms opened by (simp add: hotkeyHit_def)
  have enter: "\<not> Disabled (Items m ! nat i) \<Longrightarrow>
      keySwitch env ?ms ''enter'' = Inr (submenuOpened ?ms, None)"
    using assms opened len by (simp add: keySwitch_def)
  have right: "isDropdown m \<Longrightarrow> keySwitch env ?ms ''right'' = Inr (submenuOpened ?ms, None)"
    using assms opened by (simp add: keySwitch_def)
  have down: "\<not> isDropdown m \<Longrightarrow> keySwitch env ?ms ''down'' = Inr (submenuOpened ?ms, None)"
    using assms opened len by (simp add: keySwitch_def)
  have child: "SubMenuState (submenuOpened ?ms)
      = Some (Model (SubMenu (Items m ! nat i)) True 0 (-1) None (Styles m) True)"
    by (simp add: submenuOpened_def)
  have idx: "OpenSubMenu (submenuOpened ?ms) = i"
    by (simp add: submenuOpened_def)
  from opened hit enter right down child idx show ?thesis by blast
qed

definition fileBar :: "DemoStyle Model" where
  "fileBar = New demoEnv
     [MenuItem ''File'' ''F'' [] None
        [MenuItem ''New'' ''N'' ''^N'' (Some ''new'') [] False False,
         Separator,
         MenuItem ''Exit'' ''x'' [] (Some ''quit'') [] False False] False False,
      MenuItem ''Help'' ''H'' [] None
        [MenuItem ''About'' ''A'' [] None [] False False] False False]"

theorem open_submenu_creates_child_witness:
  "openCurrentSelection demoEnv (set_Selection 1 fileBar)
     = Inr (submenuOpened (set_Selection 1 fileBar))
   \<and> keySwitch demoEnv (set_Selection 1 fileBar) ''enter''
     = Inr (submenuOpened (set_Selection 1 fileBar), None)
   \<and> keySwitch demoEnv (set_Selection 1 fileBar) ''down''
     = Inr (submenuOpened (set_Selection 1 fileBar), None)
   \<and> SubMenuState (submenuOpened (set_Selection 1 fileBar))
     = Some (Model [MenuItem ''About'' ''A'' [] None [] False False] True 0 (-1) None
               demoStyles True)"
  using open_submenu_creates_child [of 1 fileBar demoEnv]
  by (simp add: fileBar_def demoEnv_def)

text \<open>
  The selection of the new child is not adjusted: a submenu that starts with a separator
  opens with the separator selected, although its first selectable entry has index 1.
\<close>

theorem open_submenu_selection_not_adjusted:
  "(case openCurrentSelection demoEnv
           (New demoEnv [MenuItem ''Edit'' ''E'' [] None
              [Separator, MenuItem ''Copy'' ''C'' [] None [] False False] False False]) of
      Inl e \<Rightarrow> False
    | Inr m' \<Rightarrow>
        (case SubMenuState m' of
           None \<Rightarrow> False
         | Some c \<Rightarrow> Selection c = 0 \<and> IsSeparator (Items c ! 0)
                     \<and> firstSelectable (Items c) = 1))"
  by (simp add: openCurrentSelection_def New_def Separator_def firstSelectable_def
      selectable_def Let_def)

subsection \<open>Dimensions of a dropdown\<close>

lemma Max_insert_running:
  fixes x y :: int
  assumes "finite S"
  shows "Max (insert (if x > y then x else y) S) = Max (insert y (insert x S))"
proof -
  have e: "(if x > y then x else y) = max y x" by (simp add: max_def)
  show ?thesis
    unfolding e using assms by (cases "S = {}") (simp_all add: max.assoc)
qed

lemma scanWidths_eq:
  "scanWidths env items (a, b, c) =
     (Max (insert a ((\<lambda>item. Width env (Label item)) ` set items)),
      Max (insert b ((\<lambda>item. Width env (Shortcut item)) ` set items)),
      c \<or> anySubmenu items)"
proof (induction items arbitrary: a b c)
  case Nil
  then show ?case by (simp add: anySubmenu_def)
next
  case (Cons item rest)
  show ?case
    by (auto simp add: Cons.IH Let_def anySubmenu_def Max_insert_running insert_commute
        simp del: Max_insert)
qed

text \<open>
  C9 (as amended). For an engine that renders \<open>n\<close> blanks in the dropdown item style to a
  block \<open>n + itemOverhead\<close> cells wide, and a dropdown frame of size
  \<open>(frameW, frameH)\<close>, the width of a dropdown is the largest label width plus the
  2-cell gap plus the right column, plus both overheads, and its height is the number of
  entries plus \<open>frameH\<close>. The right column is the largest shortcut width, raised to 2 as
  soon as some entry has a submenu (also when entries have shortcuts narrower than 2).
\<close>

theorem dropdown_dimensions:
  assumes "\<forall>n. Width env (Render env (DropdownItemStyle (Styles m)) (replicate n CHR '' ''))
             = int n + itemOverhead"
    and "GetFrameSize env (DropdownStyle (Styles m)) = (frameW, frameH)"
  shows "getDropdownDimensions env m =
     Inr (maxLabelWidth env (Items m) + 2 + rightColumnWidth env (Items m) + itemOverhead + frameW,
          int (length (Items m)) + frameH)"
proof -
  have l0: "0 \<le> maxLabelWidth env (Items m)" and s0: "0 \<le> maxShortcutWidth env (Items m)"
    by (simp_all add: maxLabelWidth_def maxShortcutWidth_def)
  show ?thesis
    using assms l0 s0
    by (auto simp add: getDropdownDimensions_def scanWidths_eq Let_def rightColumnWidth_def
        maxLabelWidth_def [symmetric] maxShortcutWidth_def [symmetric] simp del: Max_insert)
qed

lemma splitLines_blanks: "splitLines (replicate n CHR '' '') = [replicate n CHR '' '']"
  by (induction n) simp_all

lemma lineWidth_blanks: "lineWidth False (replicate n CHR '' '') = int n"
  by (induction n) (simp_all add: inRange_def)

lemma demoWidth_blanks: "demoWidth (replicate n CHR '' '') = int n"
  by (simp add: demoWidth_def splitLines_blanks lineWidth_blanks)

theorem dropdown_dimensions_witness:
  "getDropdownDimensions demoEnv shortcutDropdown = Inr (9, 4)"
proof -
  have styles: "Styles shortcutDropdown = demoStyles"
    by (simp add: shortcutDropdown_def demoEnv_def)
  have pad: "\<forall>n. Width demoEnv
        (Render demoEnv (DropdownItemStyle (Styles shortcutDropdown)) (replicate n CHR '' ''))
      = int n + 2"
  proof
    fix n
    have "Render demoEnv (DropdownItemStyle demoStyles) (replicate n CHR '' '')
        = replicate (n + 2) CHR '' ''"
      by (simp add: demoEnv_def demoStyles_def replicate_app_Cons_same)
    then show "Width demoEnv
        (Render demoEnv (DropdownItemStyle (Styles shortcutDropdown)) (replicate n CHR '' ''))
      = int n + 2"
      unfolding styles using demoWidth_blanks [of "n + 2"] by (simp add: demoEnv_def)
  qed
  have frame: "GetFrameSize demoEnv (DropdownStyle (Styles shortcutDropdown)) = (2, 2)"
    unfolding styles by (simp add: demoEnv_def demoStyles_def)
  have labels: "maxLabelWidth demoEnv (Items shortcutDropdown) = 1"
    by code_simp
  have right: "rightColumnWidth demoEnv (Items shortcutDropdown) = 2"
    by code_simp
  have len: "int (length (Items shortcutDropdown)) = 2"
    by (simp add: shortcutDropdown_def)
  from dropdown_dimensions [OF pad frame] labels right len show ?thesis
    by simp
qed

text \<open>
  The same dropdown against the width as the claim words it: one entry has the shortcut
  "X" (one cell), another has a submenu. The code reserves two cells for the right
  column, the claim's wording gives one.
\<close>

theorem dropdown_right_column_counterexample:
  "getDropdownDimensions demoEnv shortcutDropdown = Inr (9, 4)
   \<and> claimedDropdownWidth demoEnv shortcutDropdown = 8"
  by code_simp

subsection \<open>Splitting at a cell column\<close>

declare splitLoop.simps [simp del]

lemma splitLoop_concat:
  "fst (splitLoop W s width i prevI) @ snd (splitLoop W s width i prevI) = s"
  by (induction W s width i prevI rule: splitLoop.induct)
     (subst (1 2) splitLoop.simps, simp add: Let_def)

lemma splitWithANSI_concat:
  "fst (splitWithANSI W s width) @ snd (splitWithANSI W s width) = s"
  by (simp add: splitWithANSI_def splitLoop_concat)

text \<open>
  C10. The two components always concatenate to \<open>s\<close> (lemma \<open>splitWithANSI_concat\<close>),
  but the first one can be wider than the target: the loop measures only the proper
  prefixes \<open>s[:i]\<close>, so when the last code point is two cells wide and straddles the
  cut, no iteration sees a width above the target and the fall-through returns the
  whole string. The string is the three bytes of U+4E16, two cells wide; the target is 1.
\<close>

theorem splitWithANSI_wide_tail:
  "splitWithANSI demoWidth [CHR 0xE4, CHR 0xB8, CHR 0x96] 1 = ([CHR 0xE4, CHR 0xB8, CHR 0x96], [])
   \<and> demoWidth [CHR 0xE4, CHR 0xB8, CHR 0x96] = 2"
  by code_simp

subsection \<open>Pointer events outside of the menu\<close>

lemma dropdownRows_handled:
  "dropdownRows env m msg localY rest i y = Inr (m', h, c) \<Longrightarrow> h"
  by (induction rest arbitrary: i y)
     (auto simp: Let_def split: if_splits sum.splits)

lemma barItems_handled:
  "barItems env m msg rest i x = Inr (m', h, c) \<Longrightarrow> h"
  by (induction rest arbitrary: i x)
     (auto simp: Let_def split: if_splits sum.splits)

lemma checkSelf_unhandled:
  "checkSelf env m msg bx by = Inr (m', False, c) \<Longrightarrow> m' = m \<and> c = None"
  by (auto simp: checkSelf_def Let_def dest: dropdownRows_handled barItems_handled
      split: if_splits sum.splits prod.splits)

lemma set_SubMenuState_same: "SubMenuState m = c \<Longrightarrow> set_SubMenuState c m = m"
  by (cases m) auto

lemma checkMouse_unhandled:
  "checkMouse env m msg bx by = Inr (m', False, c) \<Longrightarrow> m' = m \<and> c = None"
proof (induction env m msg bx "by" arbitrary: m' c rule: checkMouse.induct)
  case (1 env m msg baseX baseY)
  show ?case
  proof (cases "if OpenSubMenu m \<noteq> -1 then SubMenuState m else None")
    case None
    with "1.prems" show ?thesis
      by (simp add: checkMouse.simps checkSelf_unhandled)
  next
    case (Some ch)
    from "1.prems" Some obtain subX subY where pos: "subPosition env m baseX baseY = Inr (subX, subY)"
      by (auto simp: checkMouse.simps split: sum.splits)
    from "1.prems" Some pos obtain ch' h cmd where
      sub: "checkMouse env ch msg subX subY = Inr (ch', h, cmd)"
      by (auto simp: checkMouse.simps split: sum.splits)
    from "1.prems" Some pos sub have nh: "\<not> h"
      by (auto simp: checkMouse.simps Let_def split: if_splits)
    with "1.IH" [OF Some pos refl] sub have same: "ch' = ch"
      by simp
    from Some have "SubMenuState m = Some ch" by (simp split: if_splits)
    then have m1: "set_SubMenuState (Some ch) m = m" by (rule set_SubMenuState_same)
    from "1.prems" Some pos sub nh same m1 have "checkSelf env m msg baseX baseY = Inr (m', False, c)"
      by (simp add: checkMouse.simps Let_def)
    then show ?thesis by (rule checkSelf_unhandled)
  qed
qed

text \<open>
  C7. When \<open>checkMouse\<close> reports that neither the bar nor any open dropdown claims the
  event (\<open>handled = false\<close>), it has changed nothing and produced no command; on a
  release \<open>handleMouse\<close> then returns the bar inactive, without an open index and
  without the child chain, whatever its depth, and emits no command. The other fields
  of the bar are as before.
\<close>

theorem click_outside_closes_all:
  assumes "checkMouse env m msg 0 0 = Inr (m1, False, cmd)" and "MouseType msg = MouseRelease"
  shows "handleMouse env m msg
       = Inr (set_SubMenuState None (set_OpenSubMenu (-1) (set_Active False m)), None)
     \<and> \<not> Active (set_SubMenuState None (set_OpenSubMenu (-1) (set_Active False m)))
     \<and> OpenSubMenu (set_SubMenuState None (set_OpenSubMenu (-1) (set_Active False m))) = -1
     \<and> SubMenuState (set_SubMenuState None (set_OpenSubMenu (-1) (set_Active False m))) = None"
  using assms checkMouse_unhandled [OF assms(1)] by (simp add: handleMouse_def)

theorem click_outside_closes_all_witness:
  "checkMouse demoEnv nestedBar (MouseMsg 60 30 MouseRelease) 0 0 = Inr (nestedBar, False, None)
   \<and> handleMouse demoEnv nestedBar (MouseMsg 60 30 MouseRelease)
       = Inr (set_SubMenuState None (set_OpenSubMenu (-1) (set_Active False nestedBar)), None)
   \<and> SubMenuState (set_SubMenuState None (set_OpenSubMenu (-1) (set_Active False nestedBar)))
       = None"
proof -
  have unhandled:
    "checkMouse demoEnv nestedBar (MouseMsg 60 30 MouseRelease) 0 0 = Inr (nestedBar, False, None)"
    by code_simp
  have release: "MouseType (MouseMsg 60 30 MouseRelease) = MouseRelease"
    by simp
  from click_outside_closes_all [OF unhandled release] unhandled show ?thesis
    by simp
qed

subsection \<open>One open chain\<close>

lemma chainInv_set [simp]:
  "chainInv (set_Selection i m) = chainInv m"
  "chainInv (set_Active a m) = chainInv m"
  "chainInv (set_Styles st m) = chainInv m"
  "chainInv (set_isDropdown d m) = chainInv m"
  by (cases m; simp)+

lemma chainInv_closed [simp]: "chainInv (set_SubMenuState None (set_OpenSubMenu (-1) m))"
  by (cases m) simp

lemma chainInv_New [simp]: "chainInv (New env items)"
  by (simp add: New_def)

lemma chainInv_child: "chainInv m \<Longrightarrow> SubMenuState m = Some c \<Longrightarrow> chainInv c"
  by (cases m) simp

lemma chainInv_replace_child:
  "chainInv m \<Longrightarrow> OpenSubMenu m \<noteq> -1 \<Longrightarrow> chainInv c \<Longrightarrow> chainInv (set_SubMenuState (Some c) m)"
  by (cases m) simp

lemma chainInv_open:
  "chainInv m \<Longrightarrow> openCurrentSelection env m = Inr m' \<Longrightarrow> chainInv m'"
  by (cases m) (auto simp: openCurrentSelection_def Let_def New_def split: if_splits)

lemma selectNext_result: "selectNext m = Inr m' \<Longrightarrow> \<exists>s. m' = set_Selection s m"
  by (auto simp: selectNext_def Let_def split: option.splits sum.splits)

lemma selectPrev_result: "selectPrev m = Inr m' \<Longrightarrow> \<exists>s. m' = set_Selection s m"
  by (auto simp: selectPrev_def Let_def split: option.splits sum.splits)

lemma chainInv_hotkeyHit:
  "chainInv m \<Longrightarrow> hotkeyHit env m i item = Inr (m', c) \<Longrightarrow> chainInv m'"
  by (auto simp: hotkeyHit_def Let_def split: if_splits sum.splits dest!: chainInv_open [rotated])

lemma chainInv_keySwitch:
  "chainInv m \<Longrightarrow> keySwitch env m key = Inr (m', c) \<Longrightarrow> chainInv m'"
  by (auto simp: keySwitch_def Let_def split: if_splits sum.splits
      dest!: chainInv_open [rotated] selectNext_result selectPrev_result)

lemma chainInv_keyNoSubmenu:
  "chainInv m \<Longrightarrow> keyNoSubmenu env m key = Inr (m', c) \<Longrightarrow> chainInv m'"
  by (auto simp: keyNoSubmenu_def split: option.splits dest: chainInv_hotkeyHit chainInv_keySwitch)

lemma chainInv_intercept:
  "chainInv m \<Longrightarrow> intercept env m ch msg = Some (Inr (m', c)) \<Longrightarrow> chainInv m'"
  by (auto simp: intercept_def Let_def split: if_splits sum.splits
      dest!: selectNext_result selectPrev_result dest: chainInv_open [rotated])

lemma chainInv_afterDelegate:
  "chainInv m \<Longrightarrow> OpenSubMenu m \<noteq> -1 \<Longrightarrow> r = Inr (ch, cmd) \<Longrightarrow> chainInv ch
     \<Longrightarrow> afterDelegate m r = Inr (m', c) \<Longrightarrow> chainInv m'"
  by (auto simp: afterDelegate_def Let_def chainInv_replace_child split: if_splits)

lemma chainInv_dropdownRows:
  "chainInv m \<Longrightarrow> dropdownRows env m msg localY rest i y = Inr (m', h, c) \<Longrightarrow> chainInv m'"
  by (induction rest arbitrary: i y)
     (auto simp: Let_def split: if_splits sum.splits dest: chainInv_open [rotated])

lemma chainInv_barItems:
  "chainInv m \<Longrightarrow> barItems env m msg rest i x = Inr (m', h, c) \<Longrightarrow> chainInv m'"
  by (induction rest arbitrary: i x)
     (auto simp: Let_def split: if_splits sum.splits dest: chainInv_open [rotated])

lemma chainInv_checkSelf:
  "chainInv m \<Longrightarrow> checkSelf env m msg bx by = Inr (m', h, c) \<Longrightarrow> chainInv m'"
  by (auto simp: checkSelf_def Let_def split: if_splits sum.splits prod.splits
      dest: chainInv_dropdownRows chainInv_barItems)

lemma chainInv_checkMouse:
  "chainInv m \<Longrightarrow> checkMouse env m msg bx by = Inr (m', h, c) \<Longrightarrow> chainInv m'"
proof (induction env m msg bx "by" arbitrary: m' h c rule: checkMouse.induct)
  case (1 env m msg baseX baseY)
  show ?case
  proof (cases "if OpenSubMenu m \<noteq> -1 then SubMenuState m else None")
    case None
    with "1.prems" show ?thesis
      by (auto simp: checkMouse.simps dest: chainInv_checkSelf)
  next
    case (Some ch)
    then have opn: "OpenSubMenu m \<noteq> -1" and sub: "SubMenuState m = Some ch"
      by (simp_all split: if_splits)
    from "1.prems" Some obtain subX subY where pos: "subPosition env m baseX baseY = Inr (subX, subY)"
      by (auto simp: checkMouse.simps split: sum.splits)
    from "1.prems" Some pos obtain ch' h' cmd where
      r: "checkMouse env ch msg subX subY = Inr (ch', h', cmd)"
      by (auto simp: checkMouse.simps split: sum.splits)
    have "chainInv ch" using "1.prems"(1) sub by (rule chainInv_child)
    then have "chainInv ch'" using "1.IH" [OF Some pos refl] r by blast
    then have m1: "chainInv (set_SubMenuState (Some ch') m)"
      using "1.prems"(1) opn by (simp add: chainInv_replace_child)
    from "1.prems"(2) Some pos r m1 show ?thesis
      by (auto simp: checkMouse.simps Let_def split: if_splits dest: chainInv_checkSelf)
  qed
qed

lemma chainInv_handleMouse:
  "chainInv m \<Longrightarrow> handleMouse env m msg = Inr (m', c) \<Longrightarrow> chainInv m'"
  by (auto simp: handleMouse_def split: sum.splits prod.splits if_splits dest: chainInv_checkMouse)

lemma Update_other:
  assumes "\<And>mm. msg \<noteq> Mouse mm"
  shows "Update env m msg =
     (if \<not> Active m then Inr (m, None)
      else (case (if OpenSubMenu m \<noteq> -1 then SubMenuState m else None) of
              Some c \<Rightarrow>
                (case intercept env m c msg of
                   Some r \<Rightarrow> r
                 | None \<Rightarrow> afterDelegate m (Update env c msg))
            | None \<Rightarrow>
                (case msg of
                   KeyMsg key \<Rightarrow> keyNoSubmenu env m key
                 | _ \<Rightarrow> Inr (m, None))))"
proof (cases msg)
  case (KeyMsg key)
  show ?thesis unfolding KeyMsg by (subst Update.simps) simp
next
  case (Mouse mm)
  with assms [of mm] show ?thesis by simp
next
  case OtherMsg
  show ?thesis unfolding OtherMsg by (subst Update.simps) simp
qed

lemma chainInv_Update:
  "chainInv m \<Longrightarrow> Update env m msg = Inr (m', c) \<Longrightarrow> chainInv m'"
proof (induction env m msg arbitrary: m' c rule: Update.induct)
  case (1 env m msg)
  show ?case
  proof (cases "\<exists>mm. msg = Mouse mm")
    case True
    with "1.prems" show ?thesis
      by (auto simp: Update.simps dest: chainInv_handleMouse)
  next
    case False
    then have nm: "\<And>mm. msg \<noteq> Mouse mm" by simp
    note upd = Update_other [OF nm]
    show ?thesis
    proof (cases "Active m")
      case False
      with "1.prems" show ?thesis by (simp add: upd)
    next
      case True
      show ?thesis
      proof (cases "if OpenSubMenu m \<noteq> -1 then SubMenuState m else None")
        case None
        with "1.prems" True show ?thesis
          by (auto simp: upd split: TeaMsg.splits dest: chainInv_keyNoSubmenu)
      next
        case (Some ch)
        note opened = Some
        then have opn: "OpenSubMenu m \<noteq> -1" and sub: "SubMenuState m = Some ch"
          by (simp_all split: if_splits)
        have ch: "chainInv ch" using "1.prems"(1) sub by (rule chainInv_child)
        show ?thesis
        proof (cases "intercept env m ch msg")
          case (Some r)
          with "1.prems" True opened
          show ?thesis
            by (auto simp: upd dest: chainInv_intercept)
        next
          case None
          with "1.prems"(2) True opened
          have ad: "afterDelegate m (Update env ch msg) = Inr (m', c)"
            by (simp add: upd)
          then obtain ch' cmd where r: "Update env ch msg = Inr (ch', cmd)"
            by (cases "Update env ch msg") (auto simp: afterDelegate_def)
          have nn: "\<not> \<not> Active m" using True by simp
          have "chainInv ch'"
          proof (cases msg)
            case (KeyMsg key)
            show ?thesis by (rule "1.IH"(1) [OF KeyMsg nn opened None ch r])
          next
            case OtherMsg
            show ?thesis by (rule "1.IH"(2) [OF OtherMsg nn opened None ch r])
          next
            case (Mouse mm)
            with nm [of mm] show ?thesis by simp
          qed
          with ad r "1.prems"(1) opn show ?thesis
            by (auto dest: chainInv_afterDelegate)
        qed
      qed
    qed
  qed
qed

text \<open>
  C6. A node holds at most one child by its type. In every reachable state the open index
  of every node of the chain is set exactly when its child is present. Opening the
  submenu of an entry \<open>b\<close> (selecting it and calling \<open>openCurrentSelection\<close>, as the
  key and pointer paths do) replaces whatever was open: afterwards the open index is
  \<open>b\<close>, the one child is the fresh dropdown over the submenu of \<open>b\<close>, and the
  invariant holds again.
\<close>

theorem single_open_chain:
  assumes "reachable env m"
  shows "chainInv m
     \<and> (\<forall>b. 0 \<le> b \<and> b < int (length (Items m)) \<and> SubMenu (Items m ! nat b) \<noteq> [] \<longrightarrow>
          (\<exists>m'. openCurrentSelection env (set_Selection b m) = Inr m'
                \<and> OpenSubMenu m' = b
                \<and> SubMenuState m'
                     = Some (Model (SubMenu (Items m ! nat b)) True 0 (-1) None (Styles m) True)
                \<and> chainInv m'))"
proof -
  have inv: "chainInv m"
    using assms by (induction rule: reachable.induct) (auto dest: chainInv_Update)
  have sibling: "\<exists>m'. openCurrentSelection env (set_Selection b m) = Inr m'
                \<and> OpenSubMenu m' = b
                \<and> SubMenuState m'
                     = Some (Model (SubMenu (Items m ! nat b)) True 0 (-1) None (Styles m) True)
                \<and> chainInv m'"
    if "0 \<le> b" and "b < int (length (Items m))" and "SubMenu (Items m ! nat b) \<noteq> []" for b
  proof -
    have opened: "openCurrentSelection env (set_Selection b m)
        = Inr (submenuOpened (set_Selection b m))"
      using that by (intro openCurrentSelection_opened) simp_all
    have "chainInv (submenuOpened (set_Selection b m))"
      using inv opened by (auto dest: chainInv_open [rotated])
    with opened show ?thesis
      by (simp add: submenuOpened_def)
  qed
  from inv sibling show ?thesis by blast
qed

theorem single_open_chain_witness:
  "reachable demoEnv (submenuOpened (set_Selection 1 fileBar))
   \<and> chainInv (submenuOpened (set_Selection 1 fileBar))
   \<and> OpenSubMenu (submenuOpened (set_Selection 1 fileBar)) = 1
   \<and> (\<exists>m'. openCurrentSelection demoEnv
               (set_Selection 0 (submenuOpened (set_Selection 1 fileBar))) = Inr m'
           \<and> OpenSubMenu m' = 0
           \<and> SubMenuState m'
                = Some (Model
                     [MenuItem ''New'' ''N'' ''^N'' (Some ''new'') [] False False,
                      Separator,
                      MenuItem ''Exit'' ''x'' [] (Some ''quit'') [] False False]
                     True 0 (-1) None demoStyles True)
           \<and> chainInv m')"
proof -
  have r0: "reachable demoEnv fileBar"
    unfolding fileBar_def by (rule reachable.init)
  have s1: "Update demoEnv fileBar (KeyMsg ''H'')
      = Inr (submenuOpened (set_Selection 1 fileBar), None)"
    by code_simp
  have r1: "reachable demoEnv (submenuOpened (set_Selection 1 fileBar))"
    by (rule reachable.step [OF r0 s1])
  have items: "Items (submenuOpened (set_Selection 1 fileBar)) = Items fileBar"
    and styles: "Styles (submenuOpened (set_Selection 1 fileBar)) = demoStyles"
    by (simp_all add: submenuOpened_def fileBar_def demoEnv_def)
  have entry: "Items fileBar ! nat 0
      = MenuItem ''File'' ''F'' [] None
          [MenuItem ''New'' ''N'' ''^N'' (Some ''new'') [] False False,
           Separator,
           MenuItem ''Exit'' ''x'' [] (Some ''quit'') [] False False] False False"
    and len: "length (Items fileBar) = 2"
    by (simp_all add: fileBar_def)
  note main = single_open_chain [OF r1]
  have inv: "chainInv (submenuOpened (set_Selection 1 fileBar))"
    using main by (rule conjunct1)
  have opn: "OpenSubMenu (submenuOpened (set_Selection 1 fileBar)) = 1"
    by (simp add: submenuOpened_def)
  have sibling: "\<exists>m'. openCurrentSelection demoEnv
               (set_Selection 0 (submenuOpened (set_Selection 1 fileBar))) = Inr m'
           \<and> OpenSubMenu m' = 0
           \<and> SubMenuState m'
                = Some (Model
                     [MenuItem ''New'' ''N'' ''^N'' (Some ''new'') [] False False,
                      Separator,
                      MenuItem ''Exit'' ''x'' [] (Some ''quit'') [] False False]
                     True 0 (-1) None demoStyles True)
           \<and> chainInv m'"
    using conjunct2 [OF main, THEN spec, of 0] items styles entry len by simp
  from r1 inv opn sibling show ?thesis by blast
qed

subsection \<open>The skip loops\<close>

lemma wrap_next:
  fixes s n :: int
  assumes "0 \<le> s" "s < n"
  shows "(if s + 1 \<ge> n then 0 else s + 1) = (s + 1) mod n"
proof (cases "s + 1 = n")
  case True
  then show ?thesis by simp
next
  case False
  with assms show ?thesis by simp
qed

lemma wrap_prev:
  fixes s n :: int
  assumes "0 \<le> s" "s < n"
  shows "(if s - 1 < 0 then n - 1 else s - 1) = (s - 1) mod n"
proof (cases "s = 0")
  case True
  with assms have "(- 1) mod n = n - 1"
    by (simp add: zmod_minus1)
  with True show ?thesis by simp
next
  case False
  with assms show ?thesis by simp
qed

lemma skipForwardLoop_spec:
  assumes "0 \<le> start" and "start < int (length items)"
    and "k < length items"
    and "\<forall>j<k. \<not> selectable (items ! nat ((start + int j) mod int (length items)))"
  shows "\<exists>d. k \<le> d \<and> d \<le> length items
      \<and> skipForwardLoop items start ((start + int k) mod int (length items))
          = Some (Inr ((start + int d) mod int (length items)))
      \<and> (\<forall>j<d. \<not> selectable (items ! nat ((start + int j) mod int (length items))))
      \<and> (d < length items \<longrightarrow>
            selectable (items ! nat ((start + int d) mod int (length items))))"
  using assms(3,4)
proof (induction "length items - k" arbitrary: k)
  case 0
  then show ?case by simp
next
  case (Suc x)
  let ?n = "int (length items)"
  let ?sel = "(start + int k) mod ?n"
  have npos: "0 < ?n" using Suc.prems(1) by (cases items) simp_all
  have range: "0 \<le> ?sel" "?sel < ?n" using npos by simp_all
  show ?case
  proof (cases "selectable (items ! nat ?sel)")
    case True
    then have "skipForwardLoop items start ?sel = Some (Inr ?sel)"
      using range by (subst skipForwardLoop.simps) (simp add: selectable_def)
    with True Suc.prems show ?thesis
      by (intro exI [of _ k]) simp
  next
    case False
    have nxt: "(if ?sel + 1 \<ge> ?n then 0 else ?sel + 1) = (start + int (Suc k)) mod ?n"
    proof -
      have "(?sel + 1) mod ?n = (start + int k + 1) mod ?n"
        by (simp add: mod_add_left_eq)
      also have "start + int k + 1 = start + int (Suc k)" by simp
      finally show ?thesis using wrap_next [OF range] by simp
    qed
    have blocked: "\<forall>j<Suc k. \<not> selectable (items ! nat ((start + int j) mod ?n))"
      using Suc.prems(2) False by (auto simp: less_Suc_eq)
    show ?thesis
    proof (cases "Suc k = length items")
      case True
      then have wraps: "(start + int (Suc k)) mod ?n = start"
        using assms(1,2) by simp
      have "skipForwardLoop items start ?sel = Some (Inr start)"
        using range False nxt wraps
        by (subst skipForwardLoop.simps) (simp add: selectable_def Let_def del: of_nat_Suc)
      moreover have "(start + int (length items)) mod ?n = start"
        using assms(1,2) by simp
      ultimately show ?thesis
        using blocked True by (intro exI [of _ "length items"]) (simp del: of_nat_Suc)
    next
      case False
      then have lt: "Suc k < length items" using Suc.prems(1) by simp
      have ne: "(start + int (Suc k)) mod ?n \<noteq> start"
      proof
        assume "(start + int (Suc k)) mod ?n = start"
        then have "(start + int (Suc k)) mod ?n = start mod ?n"
          using assms(1,2) by simp
        then have "?n dvd (start + int (Suc k)) - start"
          by (simp only: mod_eq_dvd_iff)
        then have "?n dvd int (Suc k)"
          by simp
        then have "length items dvd Suc k"
          using int_dvd_int_iff by blast
        with lt show False
          by (auto dest: dvd_imp_le)
      qed
      have step: "skipForwardLoop items start ?sel
          = skipForwardLoop items start ((start + int (Suc k)) mod ?n)"
        using range \<open>\<not> selectable (items ! nat ?sel)\<close> nxt ne
        by (subst skipForwardLoop.simps) (simp add: selectable_def Let_def del: of_nat_Suc)
      from Suc.hyps(2) have "x = length items - Suc k" by simp
      from Suc.hyps(1) [OF this lt blocked] obtain d where
        "Suc k \<le> d" "d \<le> length items"
        "skipForwardLoop items start ((start + int (Suc k)) mod ?n)
            = Some (Inr ((start + int d) mod ?n))"
        "\<forall>j<d. \<not> selectable (items ! nat ((start + int j) mod ?n))"
        "d < length items \<longrightarrow> selectable (items ! nat ((start + int d) mod ?n))"
        by blast
      with step show ?thesis
        by (intro exI [of _ d]) simp
    qed
  qed
qed


lemma skipBackwardLoop_spec:
  assumes "0 \<le> start" and "start < int (length items)"
    and "k < length items"
    and "\<forall>j<k. \<not> selectable (items ! nat ((start - int j) mod int (length items)))"
  shows "\<exists>d. k \<le> d \<and> d \<le> length items
      \<and> skipBackwardLoop items start ((start - int k) mod int (length items))
          = Some (Inr ((start - int d) mod int (length items)))
      \<and> (\<forall>j<d. \<not> selectable (items ! nat ((start - int j) mod int (length items))))
      \<and> (d < length items \<longrightarrow>
            selectable (items ! nat ((start - int d) mod int (length items))))"
  using assms(3,4)
proof (induction "length items - k" arbitrary: k)
  case 0
  then show ?case by simp
next
  case (Suc x)
  let ?n = "int (length items)"
  let ?sel = "(start - int k) mod ?n"
  have npos: "0 < ?n" using Suc.prems(1) by (cases items) simp_all
  have range: "0 \<le> ?sel" "?sel < ?n" using npos by simp_all
  show ?case
  proof (cases "selectable (items ! nat ?sel)")
    case True
    then have "skipBackwardLoop items start ?sel = Some (Inr ?sel)"
      using range by (subst skipBackwardLoop.simps) (simp add: selectable_def)
    with True Suc.prems show ?thesis
      by (intro exI [of _ k]) simp
  next
    case False
    have nxt: "(if ?sel - 1 < 0 then ?n - 1 else ?sel - 1) = (start - int (Suc k)) mod ?n"
    proof -
      have "(?sel - 1) mod ?n = (start - int k - 1) mod ?n"
        by (simp add: mod_diff_left_eq)
      also have "start - int k - 1 = start - int (Suc k)" by simp
      finally show ?thesis using wrap_prev [OF range] by simp
    qed
    have blocked: "\<forall>j<Suc k. \<not> selectable (items ! nat ((start - int j) mod ?n))"
      using Suc.prems(2) False by (auto simp: less_Suc_eq)
    show ?thesis
    proof (cases "Suc k = length items")
      case True
      then have wraps: "(start - int (Suc k)) mod ?n = start"
        using assms(1,2) by simp
      have "skipBackwardLoop items start ?sel = Some (Inr start)"
        using range False nxt wraps
        by (subst skipBackwardLoop.simps) (simp add: selectable_def Let_def del: of_nat_Suc)
      moreover have "(start - int (length items)) mod ?n = start"
        using assms(1,2) by simp
      ultimately show ?thesis
        using blocked True by (intro exI [of _ "length items"]) (simp del: of_nat_Suc)
    next
      case False
      then have lt: "Suc k < length items" using Suc.prems(1) by simp
      have ne: "(start - int (Suc k)) mod ?n \<noteq> start"
      proof
        assume "(start - int (Suc k)) mod ?n = start"
        then have "(start - int (Suc k)) mod ?n = start mod ?n"
          using assms(1,2) by simp
        then have "?n dvd (start - int (Suc k)) - start"
          by (simp only: mod_eq_dvd_iff)
        then have "?n dvd - int (Suc k)"
          by simp
        then have "?n dvd int (Suc k)"
          by (simp only: dvd_minus_iff)
        then have "length items dvd Suc k"
          using int_dvd_int_iff by blast
        with lt show False
          by (auto dest: dvd_imp_le)
      qed
      have step: "skipBackwardLoop items start ?sel
          = skipBackwardLoop items start ((start - int (Suc k)) mod ?n)"
        using range \<open>\<not> selectable (items ! nat ?sel)\<close> nxt ne
        by (subst skipBackwardLoop.simps) (simp add: selectable_def Let_def del: of_nat_Suc)
      from Suc.hyps(2) have "x = length items - Suc k" by simp
      from Suc.hyps(1) [OF this lt blocked] obtain d where
        "Suc k \<le> d" "d \<le> length items"
        "skipBackwardLoop items start ((start - int (Suc k)) mod ?n)
            = Some (Inr ((start - int d) mod ?n))"
        "\<forall>j<d. \<not> selectable (items ! nat ((start - int j) mod ?n))"
        "d < length items \<longrightarrow> selectable (items ! nat ((start - int d) mod ?n))"
        by blast
      with step show ?thesis
        by (intro exI [of _ d]) simp
    qed
  qed
qed

text \<open>Every index is met on the way round, in either direction.\<close>

lemma cycle_covers_forward:
  fixes start i n :: int
  assumes "0 \<le> i" "i < n"
  shows "\<exists>j. j < nat n \<and> (start + int j) mod n = i"
proof (intro exI conjI)
  show "nat ((i - start) mod n) < nat n" using assms by simp
  have "(start + int (nat ((i - start) mod n))) mod n = (start + (i - start) mod n) mod n"
    using assms by simp
  also have "\<dots> = i" using assms by (simp add: mod_add_right_eq)
  finally show "(start + int (nat ((i - start) mod n))) mod n = i" .
qed

lemma cycle_covers_backward:
  fixes start i n :: int
  assumes "0 \<le> i" "i < n"
  shows "\<exists>j. j < nat n \<and> (start - int j) mod n = i"
proof (intro exI conjI)
  show "nat ((start - i) mod n) < nat n" using assms by simp
  have "(start - int (nat ((start - i) mod n))) mod n = (start - (start - i) mod n) mod n"
    using assms by simp
  also have "\<dots> = i" using assms by (simp add: mod_diff_right_eq)
  finally show "(start - int (nat ((start - i) mod n))) mod n = i" .
qed

lemma selectable_index:
  assumes "\<exists>item \<in> set items. selectable item"
  shows "\<exists>i. 0 \<le> i \<and> i < int (length items) \<and> selectable (items ! nat i)"
proof -
  from assms obtain k where "k < length items" "selectable (items ! k)"
    by (auto simp: in_set_conv_nth)
  then show ?thesis by (intro exI [of _ "int k"]) simp
qed

text \<open>The skip loops return on every input.\<close>

lemma skipForwardLoop_returns: "\<exists>r. skipForwardLoop items s s = Some r"
proof (cases "0 \<le> s \<and> s < int (length items)")
  case True
  then have "0 < length items" by auto
  from skipForwardLoop_spec [OF _ _ this, of s] True show ?thesis by auto
next
  case False
  then show ?thesis by (subst skipForwardLoop.simps) auto
qed

lemma skipBackwardLoop_returns: "\<exists>r. skipBackwardLoop items s s = Some r"
proof (cases "0 \<le> s \<and> s < int (length items)")
  case True
  then have "0 < length items" by auto
  from skipBackwardLoop_spec [OF _ _ this, of s] True show ?thesis by auto
next
  case False
  then show ?thesis by (subst skipBackwardLoop.simps) auto
qed

lemma skipForwardLoop_lands:
  assumes "skipForwardLoop items s s = Some (Inr r)"
  shows "0 \<le> r \<and> r < int (length items)
     \<and> ((\<exists>item \<in> set items. selectable item) \<longrightarrow> selectable (items ! nat r))"
proof -
  let ?n = "int (length items)"
  have inr: "0 \<le> s \<and> s < ?n"
  proof (rule ccontr)
    assume "\<not> (0 \<le> s \<and> s < ?n)"
    then have "skipForwardLoop items s s = Some (Inl IndexOutOfRange)"
      by (subst skipForwardLoop.simps) auto
    with assms show False by simp
  qed
  then have pos: "0 < length items" by auto
  from skipForwardLoop_spec [OF _ _ pos, of s] inr assms obtain d where
    d: "d \<le> length items" "r = (s + int d) mod ?n"
      "\<forall>j<d. \<not> selectable (items ! nat ((s + int j) mod ?n))"
      "d < length items \<longrightarrow> selectable (items ! nat ((s + int d) mod ?n))"
    by auto
  have range: "0 \<le> r" "r < ?n" using d(2) pos by simp_all
  have "selectable (items ! nat r)" if ex: "\<exists>item \<in> set items. selectable item"
  proof (cases "d < length items")
    case True
    with d show ?thesis by simp
  next
    case False
    with d(1) have all: "d = length items" by simp
    from selectable_index [OF ex] obtain i where
      i: "0 \<le> i" "i < ?n" "selectable (items ! nat i)" by blast
    from cycle_covers_forward [OF i(1,2), of s] obtain j where
      "j < length items" "(s + int j) mod ?n = i" by auto
    with d(3) all i(3) show ?thesis by auto
  qed
  with range show ?thesis by blast
qed

lemma skipBackwardLoop_lands:
  assumes "skipBackwardLoop items s s = Some (Inr r)"
  shows "0 \<le> r \<and> r < int (length items)
     \<and> ((\<exists>item \<in> set items. selectable item) \<longrightarrow> selectable (items ! nat r))"
proof -
  let ?n = "int (length items)"
  have inr: "0 \<le> s \<and> s < ?n"
  proof (rule ccontr)
    assume "\<not> (0 \<le> s \<and> s < ?n)"
    then have "skipBackwardLoop items s s = Some (Inl IndexOutOfRange)"
      by (subst skipBackwardLoop.simps) auto
    with assms show False by simp
  qed
  then have pos: "0 < length items" by auto
  from skipBackwardLoop_spec [OF _ _ pos, of s] inr assms obtain d where
    d: "d \<le> length items" "r = (s - int d) mod ?n"
      "\<forall>j<d. \<not> selectable (items ! nat ((s - int j) mod ?n))"
      "d < length items \<longrightarrow> selectable (items ! nat ((s - int d) mod ?n))"
    by auto
  have range: "0 \<le> r" "r < ?n" using d(2) pos by simp_all
  have "selectable (items ! nat r)" if ex: "\<exists>item \<in> set items. selectable item"
  proof (cases "d < length items")
    case True
    with d show ?thesis by simp
  next
    case False
    with d(1) have all: "d = length items" by simp
    from selectable_index [OF ex] obtain i where
      i: "0 \<le> i" "i < ?n" "selectable (items ! nat i)" by blast
    from cycle_covers_backward [OF i(1,2), of s] obtain j where
      "j < length items" "(s - int j) mod ?n = i" by auto
    with d(3) all i(3) show ?thesis by auto
  qed
  with range show ?thesis by blast
qed

lemma selectNext_lands:
  assumes "selectNext m = Inr m'"
  shows "\<exists>r. m' = set_Selection r m \<and> 0 \<le> r \<and> r < int (length (Items m))
     \<and> ((\<exists>item \<in> set (Items m). selectable item) \<longrightarrow> selectable (Items m ! nat r))"
  using assms
  by (auto simp: selectNext_def Let_def split: option.splits sum.splits
      dest!: skipForwardLoop_lands)

lemma selectPrev_lands:
  assumes "selectPrev m = Inr m'"
  shows "\<exists>r. m' = set_Selection r m \<and> 0 \<le> r \<and> r < int (length (Items m))
     \<and> ((\<exists>item \<in> set (Items m). selectable item) \<longrightarrow> selectable (Items m ! nat r))"
  using assms
  by (auto simp: selectPrev_def Let_def split: option.splits sum.splits
      dest!: skipBackwardLoop_lands)

end
